theory Spec2Isabelle
  imports Main
begin

section \<open>The document tree and path lookup\<close>

text \<open>
  \<^verbatim>\<open>ssx.py\<close> reads an Endnote XML dump with \<^verbatim>\<open>xml.etree.ElementTree\<close> and looks
  fields up by path. An element has a tag, a text that is \<^verbatim>\<open>None\<close> when the element is
  empty, and its child elements in document order.
\<close>

datatype element = Element (el_tag: string) (el_text: "string option") (el_children: "element list")

text \<open>
  One step of a path such as \<^verbatim>\<open>./records/record\<close>: from every element selected so far,
  in order, the children carrying the tag, in order.
\<close>

definition child_step :: "string \<Rightarrow> element list \<Rightarrow> element list" where
  "child_step t es = concat (map (\<lambda>e. filter (\<lambda>c. el_tag c = t) (el_children e)) es)"

text \<open>
  \<^verbatim>\<open>elem.findall('./a/b/c')\<close>: the path is the list of its tags; the leading \<^verbatim>\<open>.\<close>
  selects the element itself.
\<close>

definition findall :: "string list \<Rightarrow> element \<Rightarrow> element list" where
  "findall path e = foldl (\<lambda>es t. child_step t es) [e] path"

text \<open>\<^verbatim>\<open>elem.find(path)\<close>: the first match, or \<^verbatim>\<open>None\<close>.\<close>

definition find_path :: "string list \<Rightarrow> element \<Rightarrow> element option" where
  "find_path path e = (case findall path e of [] \<Rightarrow> None | x # _ \<Rightarrow> Some x)"

section \<open>Exceptions\<close>

datatype error = TypeError | ParseError | ValueError | OSError | UnicodeEncodeError

section \<open>Files and outcomes\<close>

text \<open>
  The file system as the program sees it: the content of every regular file, whether
  \<^verbatim>\<open>os.access(path, os.R_OK)\<close> holds, and whether \<^verbatim>\<open>open(path, 'w')\<close> succeeds. Text
  written to a file is stored as it is written (the line separator of the platform is
  \<^verbatim>\<open>\n\<close>). Messages on the error stream are not part of the model.
\<close>

record world =
  file_content :: "string \<rightharpoonup> string"
  read_ok :: "string \<Rightarrow> bool"
  write_ok :: "string \<Rightarrow> bool"

text \<open>
  The platform of a run: the line separator \<^verbatim>\<open>os.linesep\<close> and the characters that the
  encoding of text files can represent.
\<close>

record platform =
  linesep :: string
  encodable :: "char \<Rightarrow> bool"

datatype outcome = Returned | Exited int | Raised error

section \<open>Extraction of one record (lines 76 to 106 of main)\<close>

text \<open>
  \<^verbatim>\<open>sep.join(items)\<close> raises \<^verbatim>\<open>TypeError\<close> at an item that is not a string; the items
  here are element texts, so an item is a string or \<^verbatim>\<open>None\<close>.
\<close>

fun str_join :: "string \<Rightarrow> string option list \<Rightarrow> error + string" where
  "str_join sep [] = Inr []"
| "str_join sep (None # xs) = Inl TypeError"
| "str_join sep (Some x # xs) =
     (case str_join sep xs of
        Inl e \<Rightarrow> Inl e
      | Inr r \<Rightarrow> Inr (if xs = [] then x else x @ sep @ r))"

text \<open>
  Lines 78 and 79: the texts of all author style leaves, joined with \<^verbatim>\<open>'; '\<close>.
\<close>

definition authors_field :: "element \<Rightarrow> error + string" where
  "authors_field rec =
     str_join ''; '' (map el_text (findall [''contributors'', ''authors'', ''author'', ''style''] rec))"

text \<open>
  The expression \<^verbatim>\<open>x.text if ((x is not None) and (x.text is not None)) else ''\<close>,
  which the source writes out for every single-valued lookup.
\<close>

definition text_or_empty :: "element option \<Rightarrow> string" where
  "text_or_empty x =
     (case x of
        None \<Rightarrow> []
      | Some n \<Rightarrow> (case el_text n of None \<Rightarrow> [] | Some t \<Rightarrow> t))"

text \<open>Lines 90 to 97: the composite volume reference.\<close>

definition volume_field :: "element \<Rightarrow> string" where
  "volume_field rec =
     (let volume = text_or_empty (find_path [''volume'', ''style''] rec);
          number = text_or_empty (find_path [''number'', ''style''] rec);
          pages = text_or_empty (find_path [''pages'', ''style''] rec);
          vol_ref = volume @ '':'' @ number @ '':'' @ pages
      in if vol_ref \<noteq> ''::'' then vol_ref else [])"

text \<open>
  The dictionary \<^verbatim>\<open>line\<close> of one record, as an association list in insertion order.
  The authors are joined first, so a \<^verbatim>\<open>TypeError\<close> there leaves the loop before any
  other field is looked up.
\<close>

type_synonym line = "(string \<times> string) list"

definition extract_record :: "element \<Rightarrow> error + line" where
  "extract_record rec =
     (case authors_field rec of
        Inl e \<Rightarrow> Inl e
      | Inr authors \<Rightarrow>
          Inr [(''Authors'', authors),
               (''PubDate'', text_or_empty (find_path [''dates'', ''year'', ''style''] rec)),
               (''Journal'', text_or_empty (find_path [''titles'', ''secondary-title'', ''style''] rec)),
               (''Title'', text_or_empty (find_path [''titles'', ''title'', ''style''] rec)),
               (''Volume'', volume_field rec),
               (''Label'', text_or_empty (find_path [''label'', ''style''] rec)),
               (''WorkType'', text_or_empty (find_path [''work-type'', ''style''] rec))])"

text \<open>
  The loop of lines 74 to 106 over the records: the lines are appended in order, and the
  first record whose extraction raises ends the loop with that exception.
\<close>

fun extract_all :: "element list \<Rightarrow> error + line list" where
  "extract_all [] = Inr []"
| "extract_all (r # rs) =
     (case extract_record r of
        Inl e \<Rightarrow> Inl e
      | Inr l \<Rightarrow> (case extract_all rs of Inl e \<Rightarrow> Inl e | Inr ls \<Rightarrow> Inr (l # ls)))"

definition extract_lines :: "element \<Rightarrow> error + line list" where
  "extract_lines root = extract_all (findall [''records'', ''record''] root)"

section \<open>The CSV writer (csv.DictWriter, dialect excel)\<close>

text \<open>
  \<^verbatim>\<open>save_to_CSV\<close> hands the lines to \<^verbatim>\<open>csv.DictWriter\<close> with the default dialect:
  delimiter comma, quote character \<^verbatim>\<open>"\<close>, doubled quotes, minimal quoting, line
  terminator CR LF. A field is quoted when it holds the delimiter, the quote character or
  a character of the line terminator.
\<close>

definition quotechar :: char where
  "quotechar = CHR 0x22"

definition CR :: char where
  "CR = CHR 0x0D"

definition LF :: char where
  "LF = CHR 0x0A"

definition needs_quoting :: "char \<Rightarrow> bool" where
  "needs_quoting c \<longleftrightarrow> c = CHR '','' \<or> c = quotechar \<or> c = CR \<or> c = LF"

text \<open>The characters of a field as they are copied to the record: a quote is doubled.\<close>

fun join_append_data :: "string \<Rightarrow> string" where
  "join_append_data [] = []"
| "join_append_data (c # cs) = (if c = quotechar then [c, c] else [c]) @ join_append_data cs"

definition join_append :: "string \<Rightarrow> string" where
  "join_append field =
     (if list_ex needs_quoting field
      then [quotechar] @ join_append_data field @ [quotechar]
      else join_append_data field)"

fun join_fields :: "string list \<Rightarrow> string" where
  "join_fields [] = []"
| "join_fields [f] = join_append f"
| "join_fields (f # g # fs) = join_append f @ '','' @ join_fields (g # fs)"

text \<open>
  \<^verbatim>\<open>writer.writerow\<close>: the joined fields and the line terminator; a record of one empty
  field is written as a pair of quotes.
\<close>

definition writerow :: "string list \<Rightarrow> string" where
  "writerow fs = (if fs = [[]] then [quotechar, quotechar] else join_fields fs) @ [CR, LF]"

text \<open>
  \<^verbatim>\<open>DictWriter._dict_to_list\<close>: a key outside the field names raises \<^verbatim>\<open>ValueError\<close>;
  otherwise the values are taken in the order of the field names, a missing key giving
  the empty string.
\<close>

definition dict_get :: "line \<Rightarrow> string \<Rightarrow> string" where
  "dict_get rowdict key = (case map_of rowdict key of None \<Rightarrow> [] | Some v \<Rightarrow> v)"

definition dict_to_list :: "string list \<Rightarrow> line \<Rightarrow> error + string list" where
  "dict_to_list fieldnames rowdict =
     (if list_ex (\<lambda>k. k \<notin> set fieldnames) (map fst rowdict) then Inl ValueError
      else Inr (map (dict_get rowdict) fieldnames))"

definition dict_writerow :: "string list \<Rightarrow> line \<Rightarrow> error + string" where
  "dict_writerow fieldnames rowdict =
     (case dict_to_list fieldnames rowdict of Inl e \<Rightarrow> Inl e | Inr vs \<Rightarrow> Inr (writerow vs))"

text \<open>\<^verbatim>\<open>writeheader\<close> writes the row of the dictionary that maps every field name to itself.\<close>

definition writeheader :: "string list \<Rightarrow> error + string" where
  "writeheader fieldnames = dict_writerow fieldnames (zip fieldnames fieldnames)"

text \<open>
  \<^verbatim>\<open>writerows\<close> writes the rows one after the other; the text written before a row
  that raises stays written.
\<close>

fun dict_writerows :: "string list \<Rightarrow> line list \<Rightarrow> string \<times> error option" where
  "dict_writerows fieldnames [] = ([], None)"
| "dict_writerows fieldnames (l # ls) =
     (case dict_writerow fieldnames l of
        Inl e \<Rightarrow> ([], Some e)
      | Inr t \<Rightarrow> (case dict_writerows fieldnames ls of (ts, e) \<Rightarrow> (t @ ts, e)))"

text \<open>Line 134.\<close>

definition fields :: "string list" where
  "fields = [''Authors'', ''PubDate'', ''Title'', ''Journal'', ''Volume'', ''Label'', ''WorkType'']"

text \<open>The text that lines 138 to 140 write to the opened file, and the exception if one is raised.\<close>

definition csv_text :: "line list \<Rightarrow> string \<times> error option" where
  "csv_text lines =
     (case writeheader fields of
        Inl e \<Rightarrow> ([], Some e)
      | Inr h \<Rightarrow> (case dict_writerows fields lines of (ts, e) \<Rightarrow> (h @ ts, e)))"

section \<open>Files and the main function\<close>

definition readable_file_path :: "world \<Rightarrow> string \<Rightarrow> bool" where
  "readable_file_path w apath \<longleftrightarrow> apath \<noteq> [] \<and> file_content w apath \<noteq> None \<and> read_ok w apath"

text \<open>\<^verbatim>\<open>check_input_file\<close>: the exit code when the check fails (20 by default).\<close>

definition check_input_file :: "world \<Rightarrow> string \<Rightarrow> int \<Rightarrow> int option" where
  "check_input_file w input_file exit_code =
     (if \<not> readable_file_path w input_file then Some exit_code else None)"

text \<open>
  \<^verbatim>\<open>read_xml\<close>: the XML parser of the library is a parameter, \<^verbatim>\<open>None\<close> standing for a
  \<^verbatim>\<open>ParseError\<close>.
\<close>

definition read_xml :: "(string \<Rightarrow> element option) \<Rightarrow> world \<Rightarrow> string \<Rightarrow> error + element" where
  "read_xml xml_parse w infile =
     (case file_content w infile of
        None \<Rightarrow> Inl OSError
      | Some s \<Rightarrow> (case xml_parse s of None \<Rightarrow> Inl ParseError | Some root \<Rightarrow> Inr root))"

text \<open>
  \<^verbatim>\<open>save_to_CSV\<close>: opening the file for writing truncates or creates it; then the header
  and the rows are written.
\<close>

definition save_to_CSV :: "world \<Rightarrow> line list \<Rightarrow> string \<Rightarrow> world \<times> outcome" where
  "save_to_CSV w lines filename =
     (if \<not> write_ok w filename then (w, Raised OSError)
      else (case csv_text lines of
              (t, e) \<Rightarrow>
                (w\<lparr>file_content := (file_content w)(filename \<mapsto> t)\<rparr>,
                 case e of None \<Rightarrow> Returned | Some x \<Rightarrow> Raised x)))"

text \<open>
  \<^verbatim>\<open>main\<close>, after the command line has been parsed into the two required paths: the
  check of the input file, the parse, the extraction of every record, and only then the
  writing of the output file.
\<close>

definition main :: "(string \<Rightarrow> element option) \<Rightarrow> world \<Rightarrow> string \<Rightarrow> string \<Rightarrow> world \<times> outcome" where
  "main xml_parse w input_file output_file =
     (case check_input_file w input_file 20 of
        Some code \<Rightarrow> (w, Exited code)
      | None \<Rightarrow>
          (case read_xml xml_parse w input_file of
             Inl e \<Rightarrow> (w, Raised e)
           | Inr root \<Rightarrow>
               (case extract_lines root of
                  Inl e \<Rightarrow> (w, Raised e)
                | Inr lines \<Rightarrow> save_to_CSV w lines output_file)))"

section \<open>The text-mode file of the platform\<close>

text \<open>
  \<^verbatim>\<open>open(filename, 'w')\<close> opens the file in text mode: every \<^verbatim>\<open>\n\<close> written is
  replaced by the line separator of the platform (\<^verbatim>\<open>os.linesep\<close>), and a character that
  the encoding of the platform cannot represent raises \<^verbatim>\<open>UnicodeEncodeError\<close>.
  \<^verbatim>\<open>save_to_CSV\<close> above stores the text as it is written: it is the file of a platform
  with the line separator \<^verbatim>\<open>\n\<close> and an encoding for every character.
\<close>

definition text_mode_write :: "platform \<Rightarrow> string \<Rightarrow> error + string" where
  "text_mode_write p s =
     (if list_all (encodable p) s
      then Inr (concat (map (\<lambda>c. if c = LF then linesep p else [c]) s))
      else Inl UnicodeEncodeError)"

definition always :: "char \<Rightarrow> bool" where
  "always c = True"

definition is_ascii :: "char \<Rightarrow> bool" where
  "is_ascii c \<longleftrightarrow> \<not> digit7 c"

definition posix_utf8 :: platform where
  "posix_utf8 = \<lparr>linesep = [LF], encodable = always\<rparr>"

definition windows_utf8 :: platform where
  "windows_utf8 = \<lparr>linesep = [CR, LF], encodable = always\<rparr>"

definition posix_ascii :: platform where
  "posix_ascii = \<lparr>linesep = [LF], encodable = is_ascii\<rparr>"

section \<open>The CSV reader (csv.reader, dialect excel)\<close>

text \<open>
  The reader that the round trip is stated for is the one of the same library: the state
  machine of \<^verbatim>\<open>csv.reader\<close> with the default dialect, not strict, with the default
  limit on the size of a field, fed the lines of a file opened with \<^verbatim>\<open>newline=''\<close>.
  The reader keeps its state, the characters of the current field and the fields
  saved so far.
\<close>

datatype parse_state =
  START_RECORD | START_FIELD | IN_FIELD | IN_QUOTED_FIELD | QUOTE_IN_QUOTED_FIELD | EAT_CRNL

type_synonym reader = "parse_state \<times> string \<times> string list"

text \<open>
  \<^verbatim>\<open>csv.field_size_limit()\<close> is 131072 by default; \<^verbatim>\<open>parse_add_char\<close> raises the
  reader's error (\<^verbatim>\<open>None\<close>) when the field already has that many characters.
\<close>

definition field_limit :: nat where
  "field_limit = 131072"

definition parse_add_char :: "string \<Rightarrow> char \<Rightarrow> string option" where
  "parse_add_char fld c = (if field_limit \<le> length fld then None else Some (fld @ [c]))"

text \<open>
  One character, or the end-of-line marker (\<^verbatim>\<open>None\<close>) that the reader processes after
  the last character of every line. \<^verbatim>\<open>start_field\<close> is the case \<^verbatim>\<open>START_FIELD\<close>, into
  which \<^verbatim>\<open>START_RECORD\<close> falls through on an ordinary character. The result \<^verbatim>\<open>None\<close> is
  the reader's error.
\<close>

fun start_field :: "string \<Rightarrow> string list \<Rightarrow> char option \<Rightarrow> reader option" where
  "start_field fld flds None = Some (START_RECORD, [], flds @ [fld])"
| "start_field fld flds (Some c) =
     (if c = LF \<or> c = CR then Some (EAT_CRNL, [], flds @ [fld])
      else if c = quotechar then Some (IN_QUOTED_FIELD, fld, flds)
      else if c = CHR '','' then Some (START_FIELD, [], flds @ [fld])
      else map_option (\<lambda>f. (IN_FIELD, f, flds)) (parse_add_char fld c))"

fun parse_process_char :: "reader \<Rightarrow> char option \<Rightarrow> reader option" where
  "parse_process_char (START_RECORD, fld, flds) None = Some (START_RECORD, fld, flds)"
| "parse_process_char (START_RECORD, fld, flds) (Some c) =
     (if c = LF \<or> c = CR then Some (EAT_CRNL, fld, flds) else start_field fld flds (Some c))"
| "parse_process_char (START_FIELD, fld, flds) c = start_field fld flds c"
| "parse_process_char (IN_FIELD, fld, flds) None = Some (START_RECORD, [], flds @ [fld])"
| "parse_process_char (IN_FIELD, fld, flds) (Some c) =
     (if c = LF \<or> c = CR then Some (EAT_CRNL, [], flds @ [fld])
      else if c = CHR '','' then Some (START_FIELD, [], flds @ [fld])
      else map_option (\<lambda>f. (IN_FIELD, f, flds)) (parse_add_char fld c))"
| "parse_process_char (IN_QUOTED_FIELD, fld, flds) None = Some (IN_QUOTED_FIELD, fld, flds)"
| "parse_process_char (IN_QUOTED_FIELD, fld, flds) (Some c) =
     (if c = quotechar then Some (QUOTE_IN_QUOTED_FIELD, fld, flds)
      else map_option (\<lambda>f. (IN_QUOTED_FIELD, f, flds)) (parse_add_char fld c))"
| "parse_process_char (QUOTE_IN_QUOTED_FIELD, fld, flds) None = Some (START_RECORD, [], flds @ [fld])"
| "parse_process_char (QUOTE_IN_QUOTED_FIELD, fld, flds) (Some c) =
     (if c = quotechar then map_option (\<lambda>f. (IN_QUOTED_FIELD, f, flds)) (parse_add_char fld c)
      else if c = CHR '','' then Some (START_FIELD, [], flds @ [fld])
      else if c = LF \<or> c = CR then Some (EAT_CRNL, [], flds @ [fld])
      else map_option (\<lambda>f. (IN_FIELD, f, flds)) (parse_add_char fld c))"
| "parse_process_char (EAT_CRNL, fld, flds) None = Some (START_RECORD, fld, flds)"
| "parse_process_char (EAT_CRNL, fld, flds) (Some c) =
     (if c = LF \<or> c = CR then Some (EAT_CRNL, fld, flds) else None)"

text \<open>
  The file yields its lines, each ending after \<^verbatim>\<open>\n\<close>, after \<^verbatim>\<open>\r\n\<close>, after a \<^verbatim>\<open>\r\<close>
  that no \<^verbatim>\<open>\n\<close> follows, or at the end of the file; the line ends are kept. The
  characters that the reader processes are those of the file with the end-of-line marker
  after each line.
\<close>

fun line_events :: "string \<Rightarrow> char option list" where
  "line_events [] = []"
| "line_events [c] = [Some c, None]"
| "line_events (c # d # cs) =
     Some c # (if c = LF \<or> (c = CR \<and> d \<noteq> LF) then [None] else []) @ line_events (d # cs)"

text \<open>
  The iteration over the rows: a row is complete when the state after the end-of-line
  marker is \<^verbatim>\<open>START_RECORD\<close>, and the reader starts afresh; at the end of the input a
  field in progress is saved and the row returned.
\<close>

fun read_events :: "reader \<Rightarrow> char option list \<Rightarrow> string list list option" where
  "read_events (st, fld, flds) [] =
     (if fld \<noteq> [] \<or> st = IN_QUOTED_FIELD then Some [flds @ [fld]] else Some [])"
| "read_events r (c # cs) =
     (case parse_process_char r c of
        None \<Rightarrow> None
      | Some (st, fld, flds) \<Rightarrow>
          if c = None \<and> st = START_RECORD
          then map_option ((#) flds) (read_events (START_RECORD, [], []) cs)
          else read_events (st, fld, flds) cs)"

definition csv_reader :: "string \<Rightarrow> string list list option" where
  "csv_reader s = read_events (START_RECORD, [], []) (line_events s)"

text \<open>
  The lines written by \<^verbatim>\<open>save_to_CSV\<close> to a text-mode file of the platform and read
  back from it: the exception of the writer or of the file, or else the rows of the
  reader (\<^verbatim>\<open>None\<close> for the reader's error).
\<close>

definition write_then_read :: "platform \<Rightarrow> line list \<Rightarrow> error + string list list option" where
  "write_then_read p lines =
     (case csv_text lines of
        (t, Some e) \<Rightarrow> Inl e
      | (t, None) \<Rightarrow> (case text_mode_write p t of Inl e \<Rightarrow> Inl e | Inr s \<Rightarrow> Inr (csv_reader s)))"

section \<open>Sample documents\<close>

definition style :: "string option \<Rightarrow> element" where
  "style t = Element ''style'' t []"

definition author :: "string option \<Rightarrow> element" where
  "author t = Element ''author'' None [style t]"

definition record_of_authors :: "string option list \<Rightarrow> element" where
  "record_of_authors ts =
     Element ''record'' None
       [Element ''contributors'' None [Element ''authors'' None (map author ts)]]"

definition sample_record :: element where
  "sample_record =
     Element ''record'' None
       [Element ''contributors'' None
          [Element ''authors'' None [author (Some ''Hicks, T.''), author (Some ''Doe, J.'')]],
        Element ''titles'' None
          [Element ''title'' None [style (Some ''A, B'')],
           Element ''secondary-title'' None [style (Some ''Journal'')]],
        Element ''dates'' None [Element ''year'' None [style (Some ''2020'')]],
        Element ''volume'' None [style (Some ''3'')],
        Element ''number'' None [style (Some ''2'')],
        Element ''pages'' None [style (Some ''10-20'')],
        Element ''label'' None [style None]]"

definition document :: "element list \<Rightarrow> element" where
  "document recs = Element ''xml'' None [Element ''records'' None recs]"

definition sample_world :: world where
  "sample_world =
     \<lparr>file_content = [''in.xml'' \<mapsto> ''<xml/>'', ''out.csv'' \<mapsto> ''old''],
      read_ok = (\<lambda>p. True), write_ok = (\<lambda>p. True)\<rparr>"

definition sample_line :: line where
  "sample_line =
     [(''Authors'', ''Hicks, T.; Doe, J.''), (''PubDate'', ''2020''), (''Journal'', ''Journal''),
      (''Title'', ''A, B''), (''Volume'', ''3:2:10-20''), (''Label'', []), (''WorkType'', [])]"

text \<open>A record with nothing but a title, and the line extracted from it.\<close>

definition titled_record :: "string \<Rightarrow> element" where
  "titled_record t = Element ''record'' None [Element ''titles'' None [Element ''title'' None [style (Some t)]]]"

definition titled_line :: "string \<Rightarrow> line" where
  "titled_line t =
     [(''Authors'', []), (''PubDate'', []), (''Journal'', []), (''Title'', t), (''Volume'', []),
      (''Label'', []), (''WorkType'', [])]"

definition long_title :: string where
  "long_title = replicate 131073 (CHR ''a'')"

section \<open>Properties of the extraction\<close>

lemma str_join_Inr_iff: "(\<exists>r. str_join sep xs = Inr r) \<longleftrightarrow> None \<notin> set xs"
proof (induction xs)
  case Nil
  show ?case by simp
next
  case (Cons x xs)
  show ?case
  proof (cases x)
    case None
    then show ?thesis by simp
  next
    case (Some s)
    with Cons show ?thesis by (cases "str_join sep xs") auto
  qed
qed

lemma vol_ref_degenerate:
  "v @ '':'' @ n @ '':'' @ p = ''::'' \<longleftrightarrow> v = [] \<and> n = [] \<and> p = []"
proof
  assume h: "v @ '':'' @ n @ '':'' @ p = ''::''"
  then have "length (v @ '':'' @ n @ '':'' @ p) = length ''::''" by (rule arg_cong)
  then show "v = [] \<and> n = [] \<and> p = []" by simp
qed simp

lemma findall_Nil [simp]: "findall [] e = [e]"
  by (simp add: findall_def)

lemma child_step_append: "child_step t (a @ b) = child_step t a @ child_step t b"
  by (simp add: child_step_def)

lemma foldl_child_step_append:
  "foldl (\<lambda>es t. child_step t es) (a @ b) ts =
   foldl (\<lambda>es t. child_step t es) a ts @ foldl (\<lambda>es t. child_step t es) b ts"
  by (induction ts arbitrary: a b) (simp_all add: child_step_append)

lemma foldl_child_step_concat:
  "foldl (\<lambda>es t. child_step t es) es ts = concat (map (findall ts) es)"
proof (induction es)
  case Nil
  show ?case by (induction ts) (simp_all add: child_step_def)
next
  case (Cons e es)
  have "foldl (\<lambda>es t. child_step t es) ([e] @ es) ts =
        findall ts e @ foldl (\<lambda>es t. child_step t es) es ts"
    unfolding foldl_child_step_append by (simp add: findall_def)
  with Cons show ?case by simp
qed

lemma findall_Cons:
  "findall (t # ts) e = concat (map (findall ts) (filter (\<lambda>c. el_tag c = t) (el_children e)))"
proof -
  have "findall (t # ts) e = foldl (\<lambda>es t. child_step t es) (child_step t [e]) ts"
    by (simp add: findall_def)
  also have "\<dots> = concat (map (findall ts) (child_step t [e]))"
    by (rule foldl_child_step_concat)
  finally show ?thesis by (simp add: child_step_def)
qed

lemma str_join_texts:
  "str_join sep (map Some ts) = Inr (case ts of [] \<Rightarrow> [] | t # us \<Rightarrow> t @ concat (map (\<lambda>u. sep @ u) us))"
proof (induction ts)
  case Nil
  show ?case by simp
next
  case (Cons t ts)
  then show ?case by (cases ts) simp_all
qed

lemma volume_field_components:
  "volume_field rec =
     (if text_or_empty (find_path [''volume'', ''style''] rec) = []
         \<and> text_or_empty (find_path [''number'', ''style''] rec) = []
         \<and> text_or_empty (find_path [''pages'', ''style''] rec) = [] then []
      else text_or_empty (find_path [''volume'', ''style''] rec) @ '':'' @
           text_or_empty (find_path [''number'', ''style''] rec) @ '':'' @
           text_or_empty (find_path [''pages'', ''style''] rec))"
  unfolding volume_field_def Let_def
  using vol_ref_degenerate [of "text_or_empty (find_path [''volume'', ''style''] rec)"
      "text_or_empty (find_path [''number'', ''style''] rec)"
      "text_or_empty (find_path [''pages'', ''style''] rec)"]
  by simp

lemma extract_record_Inr_iff:
  "(\<exists>line. extract_record rec = Inr line) \<longleftrightarrow>
   None \<notin> set (map el_text (findall [''contributors'', ''authors'', ''author'', ''style''] rec))"
  unfolding extract_record_def authors_field_def
  using str_join_Inr_iff [of "''; ''"
      "map el_text (findall [''contributors'', ''authors'', ''author'', ''style''] rec)"]
  by (auto split: sum.splits)

lemma extract_all_rows:
  "\<forall>r \<in> set recs. \<exists>line. extract_record r = Inr line \<Longrightarrow>
   \<exists>lines. extract_all recs = Inr lines \<and> length lines = length recs
     \<and> (\<forall>i < length recs. extract_record (recs ! i) = Inr (lines ! i))"
proof (induction recs)
  case Nil
  show ?case by simp
next
  case (Cons r recs)
  from Cons.prems obtain l where l: "extract_record r = Inr l" by auto
  from Cons obtain ls where ls: "extract_all recs = Inr ls" "length ls = length recs"
    "\<forall>i < length recs. extract_record (recs ! i) = Inr (ls ! i)" by auto
  have "\<forall>i < length (r # recs). extract_record ((r # recs) ! i) = Inr ((l # ls) ! i)"
    using l ls(3) by (auto simp: nth_Cons split: nat.splits)
  with l ls show ?case by simp
qed

lemma extract_lines_rows:
  assumes "\<forall>r \<in> set (findall [''records'', ''record''] root).
     None \<notin> set (map el_text (findall [''contributors'', ''authors'', ''author'', ''style''] r))"
  shows "\<exists>lines. extract_lines root = Inr lines
     \<and> length lines = length (findall [''records'', ''record''] root)
     \<and> (\<forall>i < length lines. extract_record (findall [''records'', ''record''] root ! i) = Inr (lines ! i))"
proof -
  have "\<forall>r \<in> set (findall [''records'', ''record''] root). \<exists>line. extract_record r = Inr line"
    using assms extract_record_Inr_iff by blast
  from extract_all_rows [OF this] show ?thesis
    unfolding extract_lines_def by auto
qed

lemma extract_record_keys:
  "extract_record rec = Inr l \<Longrightarrow>
   map fst l = [''Authors'', ''PubDate'', ''Journal'', ''Title'', ''Volume'', ''Label'', ''WorkType'']"
  by (auto simp: extract_record_def split: sum.splits)

lemma extract_all_keys:
  "extract_all recs = Inr lines \<Longrightarrow> l \<in> set lines \<Longrightarrow>
   map fst l = [''Authors'', ''PubDate'', ''Journal'', ''Title'', ''Volume'', ''Label'', ''WorkType'']"
proof (induction recs arbitrary: lines)
  case Nil
  then show ?case by simp
next
  case (Cons r recs)
  then show ?case
    by (auto split: sum.splits dest: extract_record_keys)
qed

lemma writeheader_fields: "writeheader fields = Inr (writerow fields)"
  by (simp add: writeheader_def dict_writerow_def dict_to_list_def dict_get_def fields_def)

lemma header_text:
  "writerow fields = ''Authors,PubDate,Title,Journal,Volume,Label,WorkType'' @ [CR, LF]"
  by (simp add: writerow_def fields_def join_append_def needs_quoting_def quotechar_def CR_def LF_def)

lemma dict_writerow_extracted:
  assumes "map fst l = [''Authors'', ''PubDate'', ''Journal'', ''Title'', ''Volume'', ''Label'', ''WorkType'']"
  shows "dict_writerow fields l = Inr (writerow (map (dict_get l) fields))"
proof -
  have "\<not> list_ex (\<lambda>k. k \<notin> set fields) (map fst l)"
    unfolding assms by (simp add: fields_def)
  then show ?thesis
    by (simp add: dict_writerow_def dict_to_list_def)
qed

lemma dict_writerows_extracted:
  "\<forall>l \<in> set lines. map fst l = [''Authors'', ''PubDate'', ''Journal'', ''Title'', ''Volume'', ''Label'', ''WorkType'']
   \<Longrightarrow> dict_writerows fields lines = (concat (map (\<lambda>l. writerow (map (dict_get l) fields)) lines), None)"
  by (induction lines) (simp_all add: dict_writerow_extracted)

text \<open>
  C4. For every record the volume reference is the three components, each resolved on its
  own and empty when its leaf is missing or has no text, written as
  \<^verbatim>\<open>volume:number:pages\<close>; when all three are empty it is the empty string and not
  \<^verbatim>\<open>::\<close>. The components 3, 2 and 10-20 give \<^verbatim>\<open>3:2:10-20\<close>, the volume 3 alone gives
  \<^verbatim>\<open>3::\<close>, and the row of the record carries this value in its Volume column.
\<close>

theorem volume_field_format:
  assumes "text_or_empty (find_path [''volume'', ''style''] rec) = v"
    and "text_or_empty (find_path [''number'', ''style''] rec) = n"
    and "text_or_empty (find_path [''pages'', ''style''] rec) = p"
  shows "volume_field rec = (if v = [] \<and> n = [] \<and> p = [] then [] else v @ '':'' @ n @ '':'' @ p)
    \<and> (v = ''3'' \<and> n = ''2'' \<and> p = ''10-20'' \<longrightarrow> volume_field rec = ''3:2:10-20'')
    \<and> (v = ''3'' \<and> n = [] \<and> p = [] \<longrightarrow> volume_field rec = ''3::'')
    \<and> (\<forall>line. extract_record rec = Inr line \<longrightarrow> map_of line ''Volume'' = Some (volume_field rec))"
proof -
  have fmt: "volume_field rec = (if v = [] \<and> n = [] \<and> p = [] then [] else v @ '':'' @ n @ '':'' @ p)"
    unfolding volume_field_def Let_def assms
    using vol_ref_degenerate [of v n p] by simp
  have row: "\<forall>line. extract_record rec = Inr line \<longrightarrow> map_of line ''Volume'' = Some (volume_field rec)"
    by (auto simp: extract_record_def split: sum.splits)
  from fmt row show ?thesis by simp
qed

theorem volume_field_format_witness:
  "volume_field sample_record = ''3:2:10-20''
   \<and> (\<exists>line. extract_record sample_record = Inr line \<and> map_of line ''Volume'' = Some ''3:2:10-20'')
   \<and> volume_field (Element ''record'' None [Element ''volume'' None [style (Some ''3'')]]) = ''3::''
   \<and> volume_field (Element ''record'' None [Element ''volume'' None [style None]]) = []"
proof -
  have v: "text_or_empty (find_path [''volume'', ''style''] sample_record) = ''3''"
    and n: "text_or_empty (find_path [''number'', ''style''] sample_record) = ''2''"
    and p: "text_or_empty (find_path [''pages'', ''style''] sample_record) = ''10-20''"
    by (simp_all add: sample_record_def style_def author_def find_path_def text_or_empty_def findall_Cons)
  have r: "extract_record sample_record =
      Inr [(''Authors'', ''Hicks, T.; Doe, J.''), (''PubDate'', ''2020''), (''Journal'', ''Journal''),
           (''Title'', ''A, B''), (''Volume'', volume_field sample_record), (''Label'', []),
           (''WorkType'', [])]"
    by (simp add: extract_record_def authors_field_def sample_record_def style_def author_def
        find_path_def text_or_empty_def findall_Cons)
  have a: "volume_field sample_record = ''3:2:10-20''"
    using volume_field_format [OF v n p] by simp
  have b: "\<exists>line. extract_record sample_record = Inr line \<and> map_of line ''Volume'' = Some ''3:2:10-20''"
    using volume_field_format [OF v n p] r by simp
  have c: "volume_field (Element ''record'' None [Element ''volume'' None [style (Some ''3'')]]) = ''3::''"
    using volume_field_format [of "Element ''record'' None [Element ''volume'' None [style (Some ''3'')]]" "''3''" "[]" "[]"]
    by (simp add: style_def find_path_def text_or_empty_def findall_Cons)
  have d: "volume_field (Element ''record'' None [Element ''volume'' None [style None]]) = []"
    using volume_field_format [of "Element ''record'' None [Element ''volume'' None [style None]]" "[]" "[]" "[]"]
    by (simp add: style_def find_path_def text_or_empty_def findall_Cons)
  from a b c d show ?thesis by simp
qed

text \<open>
  C5. When every author style leaf of a record carries text, the record has a row and its
  Authors column is the texts of all the leaves, in order, joined with \<^verbatim>\<open>'; '\<close>: the
  empty string for no author, the text itself for one author, \<^verbatim>\<open>A; B\<close> for two.
\<close>

theorem authors_joined:
  assumes "map el_text (findall [''contributors'', ''authors'', ''author'', ''style''] rec) = map Some ts"
  shows "\<exists>line. extract_record rec = Inr line
    \<and> map_of line ''Authors'' = Some (case ts of [] \<Rightarrow> [] | t # us \<Rightarrow> t @ concat (map (\<lambda>u. ''; '' @ u) us))
    \<and> (ts = [] \<longrightarrow> map_of line ''Authors'' = Some [])
    \<and> (\<forall>a. ts = [a] \<longrightarrow> map_of line ''Authors'' = Some a)
    \<and> (\<forall>a b. ts = [a, b] \<longrightarrow> map_of line ''Authors'' = Some (a @ ''; '' @ b))"
proof -
  have "authors_field rec = Inr (case ts of [] \<Rightarrow> [] | t # us \<Rightarrow> t @ concat (map (\<lambda>u. ''; '' @ u) us))"
    unfolding authors_field_def assms by (rule str_join_texts)
  then show ?thesis
    by (auto simp: extract_record_def)
qed

theorem authors_joined_witness:
  "(\<exists>line. extract_record sample_record = Inr line \<and> map_of line ''Authors'' = Some ''Hicks, T.; Doe, J.'')
   \<and> (\<exists>line. extract_record (record_of_authors []) = Inr line \<and> map_of line ''Authors'' = Some [])
   \<and> (\<exists>line. extract_record (record_of_authors [Some ''Hicks, T.'']) = Inr line
        \<and> map_of line ''Authors'' = Some ''Hicks, T.'')"
proof -
  have two: "map el_text (findall [''contributors'', ''authors'', ''author'', ''style''] sample_record)
      = map Some [''Hicks, T.'', ''Doe, J.'']"
    by (simp add: sample_record_def style_def author_def findall_Cons)
  have none: "map el_text (findall [''contributors'', ''authors'', ''author'', ''style''] (record_of_authors []))
      = map Some []"
    by (simp add: record_of_authors_def findall_Cons)
  have one: "map el_text (findall [''contributors'', ''authors'', ''author'', ''style'']
      (record_of_authors [Some ''Hicks, T.''])) = map Some [''Hicks, T.'']"
    by (simp add: record_of_authors_def style_def author_def findall_Cons)
  show ?thesis
    using authors_joined [OF two] authors_joined [OF none] authors_joined [OF one]
    by simp
qed

text \<open>
  C2. The claim asks that no field lookup of a record raises and that an author leaf
  without text becomes an empty element of the join. The source guards every
  single-valued lookup against a missing text but not the author texts: a record whose
  only author leaf has no text makes \<^verbatim>\<open>'; '.join\<close> raise \<^verbatim>\<open>TypeError\<close>, and so does a
  record with a second author leaf without text.
\<close>

theorem authors_without_text_raise:
  "extract_record (record_of_authors [None]) = Inl TypeError
   \<and> extract_record (record_of_authors [Some ''Hicks, T.'', None]) = Inl TypeError"
  by (simp add: extract_record_def authors_field_def record_of_authors_def style_def author_def
      findall_Cons)

text \<open>
  C1. The claim asks for one row per record of every well-formed document. The document
  with the single record whose author leaf has no text is well-formed and has one node
  at \<^verbatim>\<open>records/record\<close>, yet the extraction ends in \<^verbatim>\<open>TypeError\<close>: no row is produced
  and the output file is never written.
\<close>

theorem textless_author_document_gives_no_rows:
  "findall [''records'', ''record''] (document [record_of_authors [None]]) = [record_of_authors [None]]
   \<and> extract_lines (document [record_of_authors [None]]) = Inl TypeError
   \<and> main (\<lambda>s. Some (document [record_of_authors [None]])) sample_world ''in.xml'' ''out.csv''
       = (sample_world, Raised TypeError)"
proof -
  have recs: "findall [''records'', ''record''] (document [record_of_authors [None]]) = [record_of_authors [None]]"
    by (simp add: document_def record_of_authors_def findall_Cons)
  have r: "extract_record (record_of_authors [None]) = Inl TypeError"
    by (simp add: extract_record_def authors_field_def record_of_authors_def style_def author_def
        findall_Cons)
  have ls: "extract_lines (document [record_of_authors [None]]) = Inl TypeError"
    by (simp add: extract_lines_def recs r)
  have "main (\<lambda>s. Some (document [record_of_authors [None]])) sample_world ''in.xml'' ''out.csv''
       = (sample_world, Raised TypeError)"
    by (simp add: main_def check_input_file_def readable_file_path_def read_xml_def ls sample_world_def)
  with recs ls show ?thesis by simp
qed

text \<open>
  C6. In the row of a record, each of the columns PubDate, Journal, Title, Label and
  WorkType is the text of the first node at its path when that node has a non-empty text,
  and the empty string otherwise; a node without text and a missing node give the same
  value. The same holds for the three components of the Volume column. A record with no
  node at \<^verbatim>\<open>dates/year/style\<close> has the empty PubDate.
\<close>

theorem single_valued_fields:
  assumes "extract_record rec = Inr line"
  shows "(\<forall>(col, path) \<in> set [(''PubDate'', [''dates'', ''year'', ''style'']),
                             (''Journal'', [''titles'', ''secondary-title'', ''style'']),
                             (''Title'', [''titles'', ''title'', ''style'']),
                             (''Label'', [''label'', ''style'']),
                             (''WorkType'', [''work-type'', ''style''])].
            (\<forall>n t. find_path path rec = Some n \<and> el_text n = Some t \<and> t \<noteq> [] \<longrightarrow> map_of line col = Some t)
          \<and> ((\<nexists>n t. find_path path rec = Some n \<and> el_text n = Some t \<and> t \<noteq> []) \<longrightarrow> map_of line col = Some []))
    \<and> (\<exists>v n p. map_of line ''Volume'' = Some (if v = [] \<and> n = [] \<and> p = [] then [] else v @ '':'' @ n @ '':'' @ p)
          \<and> (\<forall>(c, path) \<in> set [(v, [''volume'', ''style'']), (n, [''number'', ''style'']), (p, [''pages'', ''style''])].
               (\<forall>m t. find_path path rec = Some m \<and> el_text m = Some t \<and> t \<noteq> [] \<longrightarrow> c = t)
             \<and> ((\<nexists>m t. find_path path rec = Some m \<and> el_text m = Some t \<and> t \<noteq> []) \<longrightarrow> c = [])))
    \<and> (findall [''dates'', ''year'', ''style''] rec = [] \<longrightarrow> map_of line ''PubDate'' = Some [])"
proof -
  from assms obtain a where line: "line =
      [(''Authors'', a),
       (''PubDate'', text_or_empty (find_path [''dates'', ''year'', ''style''] rec)),
       (''Journal'', text_or_empty (find_path [''titles'', ''secondary-title'', ''style''] rec)),
       (''Title'', text_or_empty (find_path [''titles'', ''title'', ''style''] rec)),
       (''Volume'', volume_field rec),
       (''Label'', text_or_empty (find_path [''label'', ''style''] rec)),
       (''WorkType'', text_or_empty (find_path [''work-type'', ''style''] rec))]"
    by (auto simp: extract_record_def split: sum.splits)
  have single: "(\<forall>(col, path) \<in> set [(''PubDate'', [''dates'', ''year'', ''style'']),
                             (''Journal'', [''titles'', ''secondary-title'', ''style'']),
                             (''Title'', [''titles'', ''title'', ''style'']),
                             (''Label'', [''label'', ''style'']),
                             (''WorkType'', [''work-type'', ''style''])].
            (\<forall>n t. find_path path rec = Some n \<and> el_text n = Some t \<and> t \<noteq> [] \<longrightarrow> map_of line col = Some t)
          \<and> ((\<nexists>n t. find_path path rec = Some n \<and> el_text n = Some t \<and> t \<noteq> []) \<longrightarrow> map_of line col = Some []))"
    unfolding line by (auto simp: text_or_empty_def split: option.splits)
  have vol: "\<exists>v n p. map_of line ''Volume'' = Some (if v = [] \<and> n = [] \<and> p = [] then [] else v @ '':'' @ n @ '':'' @ p)
          \<and> (\<forall>(c, path) \<in> set [(v, [''volume'', ''style'']), (n, [''number'', ''style'']), (p, [''pages'', ''style''])].
               (\<forall>m t. find_path path rec = Some m \<and> el_text m = Some t \<and> t \<noteq> [] \<longrightarrow> c = t)
             \<and> ((\<nexists>m t. find_path path rec = Some m \<and> el_text m = Some t \<and> t \<noteq> []) \<longrightarrow> c = []))"
  proof (intro exI conjI)
    show "map_of line ''Volume'' = Some (if text_or_empty (find_path [''volume'', ''style''] rec) = []
          \<and> text_or_empty (find_path [''number'', ''style''] rec) = []
          \<and> text_or_empty (find_path [''pages'', ''style''] rec) = [] then []
        else text_or_empty (find_path [''volume'', ''style''] rec) @ '':'' @
             text_or_empty (find_path [''number'', ''style''] rec) @ '':'' @
             text_or_empty (find_path [''pages'', ''style''] rec))"
      unfolding line using volume_field_components [of rec] by simp
    show "\<forall>(c, path) \<in> set [(text_or_empty (find_path [''volume'', ''style''] rec), [''volume'', ''style'']),
          (text_or_empty (find_path [''number'', ''style''] rec), [''number'', ''style'']),
          (text_or_empty (find_path [''pages'', ''style''] rec), [''pages'', ''style''])].
               (\<forall>m t. find_path path rec = Some m \<and> el_text m = Some t \<and> t \<noteq> [] \<longrightarrow> c = t)
             \<and> ((\<nexists>m t. find_path path rec = Some m \<and> el_text m = Some t \<and> t \<noteq> []) \<longrightarrow> c = [])"
      by (auto simp: text_or_empty_def split: option.splits)
  qed
  have date: "findall [''dates'', ''year'', ''style''] rec = [] \<longrightarrow> map_of line ''PubDate'' = Some []"
    unfolding line by (simp add: find_path_def text_or_empty_def)
  from single vol date show ?thesis by blast
qed

theorem single_valued_fields_witness:
  "\<exists>line. extract_record sample_record = Inr line
     \<and> map_of line ''PubDate'' = Some ''2020'' \<and> map_of line ''Title'' = Some ''A, B''
     \<and> map_of line ''Journal'' = Some ''Journal''
     \<and> map_of line ''Label'' = Some [] \<and> map_of line ''WorkType'' = Some []"
proof -
  obtain line where r: "extract_record sample_record = Inr line"
    by (simp add: extract_record_def authors_field_def sample_record_def style_def author_def
        findall_Cons)
  have f: "find_path [''dates'', ''year'', ''style''] sample_record = Some (Element ''style'' (Some ''2020'') [])"
    "find_path [''titles'', ''title'', ''style''] sample_record = Some (Element ''style'' (Some ''A, B'') [])"
    "find_path [''titles'', ''secondary-title'', ''style''] sample_record = Some (Element ''style'' (Some ''Journal'') [])"
    "find_path [''label'', ''style''] sample_record = Some (Element ''style'' None [])"
    "find_path [''work-type'', ''style''] sample_record = None"
    by (simp_all add: find_path_def sample_record_def style_def author_def findall_Cons)
  show ?thesis
    using single_valued_fields [OF r] r f by simp
qed

text \<open>
  C9. When the input path is not a readable file, \<^verbatim>\<open>main\<close> exits with code 20 whatever
  the parser would do, and the file system is as it was: no output file is written.
\<close>

theorem unreadable_input_exits_20:
  assumes "\<not> readable_file_path w input_file"
  shows "\<forall>xml_parse. main xml_parse w input_file output_file = (w, Exited 20)"
  using assms by (simp add: main_def check_input_file_def)

theorem unreadable_input_exits_20_witness:
  "\<not> readable_file_path sample_world ''missing.xml''
   \<and> main (\<lambda>s. None) sample_world ''missing.xml'' ''new.csv'' = (sample_world, Exited 20)
   \<and> file_content (fst (main (\<lambda>s. None) sample_world ''missing.xml'' ''new.csv'')) ''new.csv'' = None"
proof -
  have h: "\<not> readable_file_path sample_world ''missing.xml''"
    by (simp add: readable_file_path_def sample_world_def)
  have n: "file_content sample_world ''new.csv'' = None"
    by (simp add: sample_world_def)
  show ?thesis
    using unreadable_input_exits_20 [OF h, of "''new.csv''"] h n by simp
qed

text \<open>
  C10. The output file is written only by \<^verbatim>\<open>save_to_CSV\<close>, after the parse and the
  extraction of all records have returned: when the parse fails or the extraction
  raises, \<^verbatim>\<open>main\<close> ends with that exception and the file system, a file at the output
  path included, is as it was; and whenever a run changes the file system, the document was
  parsed and all its lines were extracted.
\<close>

theorem failure_before_write_keeps_output:
  "(readable_file_path w input_file \<and>
      (read_xml xml_parse w input_file = Inl e
       \<or> (\<exists>root. read_xml xml_parse w input_file = Inr root \<and> extract_lines root = Inl e))
     \<longrightarrow> main xml_parse w input_file output_file = (w, Raised e))
   \<and> (fst (main xml_parse w input_file output_file) \<noteq> w
     \<longrightarrow> (\<exists>root lines. read_xml xml_parse w input_file = Inr root \<and> extract_lines root = Inr lines
           \<and> main xml_parse w input_file output_file = save_to_CSV w lines output_file))"
  by (auto simp: main_def check_input_file_def split: sum.splits)

theorem failure_before_write_keeps_output_witness:
  "main (\<lambda>s. None) sample_world ''in.xml'' ''out.csv'' = (sample_world, Raised ParseError)
   \<and> main (\<lambda>s. Some (document [sample_record, record_of_authors [None]])) sample_world ''in.xml'' ''out.csv''
       = (sample_world, Raised TypeError)
   \<and> file_content sample_world ''out.csv'' = Some ''old''"
proof -
  have r: "readable_file_path sample_world ''in.xml''"
    by (simp add: readable_file_path_def sample_world_def)
  have p: "read_xml (\<lambda>s. None) sample_world ''in.xml'' = Inl ParseError"
    by (simp add: read_xml_def sample_world_def)
  have q: "read_xml (\<lambda>s. Some (document [sample_record, record_of_authors [None]])) sample_world ''in.xml''
      = Inr (document [sample_record, record_of_authors [None]])"
    by (simp add: read_xml_def sample_world_def)
  have recs: "findall [''records'', ''record''] (document [sample_record, record_of_authors [None]])
      = [sample_record, record_of_authors [None]]"
    by (simp add: document_def record_of_authors_def sample_record_def findall_Cons)
  have a: "\<exists>l. extract_record sample_record = Inr l"
    by (simp add: extract_record_def authors_field_def sample_record_def style_def author_def
        findall_Cons)
  have b: "extract_record (record_of_authors [None]) = Inl TypeError"
    by (simp add: extract_record_def authors_field_def record_of_authors_def style_def author_def
        findall_Cons)
  have x: "extract_lines (document [sample_record, record_of_authors [None]]) = Inl TypeError"
    using a b by (auto simp: extract_lines_def recs)
  have o: "file_content sample_world ''out.csv'' = Some ''old''"
    by (simp add: sample_world_def)
  show ?thesis
    using failure_before_write_keeps_output [of sample_world "''in.xml''" "\<lambda>s. None" ParseError "''out.csv''"]
      failure_before_write_keeps_output [of sample_world "''in.xml''"
        "\<lambda>s. Some (document [sample_record, record_of_authors [None]])" TypeError "''out.csv''"]
      r p q x o
    by simp
qed



text \<open>
  C3. The claim puts Journal before Title. The writer takes the column order from the
  list \<^verbatim>\<open>fields\<close> of line 134, where Title comes before Journal: the header written is
  not the one of the claim.
\<close>

theorem journal_before_title_counterexample:
  "fst (csv_text []) \<noteq> ''Authors,PubDate,Journal,Title,Volume,Label,WorkType'' @ [CR, LF]"
  by (simp add: csv_text_def writeheader_fields header_text)

text \<open>
  C3 as amended. For the lines extracted from any list of records, the writer raises
  nothing; the text written is the header
  \<^verbatim>\<open>Authors,PubDate,Title,Journal,Volume,Label,WorkType\<close> followed by one row per line
  with the values of the line in that order (Title before Journal); and every line has
  the seven keys, so each value is the extracted one.
\<close>

theorem title_before_journal_order:
  assumes "extract_all recs = Inr lines"
  shows "csv_text lines =
     (''Authors,PubDate,Title,Journal,Volume,Label,WorkType'' @ [CR, LF] @
      concat (map (\<lambda>l. writerow [dict_get l ''Authors'', dict_get l ''PubDate'', dict_get l ''Title'',
                                  dict_get l ''Journal'', dict_get l ''Volume'', dict_get l ''Label'',
                                  dict_get l ''WorkType'']) lines), None)
   \<and> (\<forall>l \<in> set lines. \<forall>k \<in> set fields. \<exists>v. map_of l k = Some v \<and> dict_get l k = v)"
proof -
  have keys: "\<forall>l \<in> set lines.
      map fst l = [''Authors'', ''PubDate'', ''Journal'', ''Title'', ''Volume'', ''Label'', ''WorkType'']"
    using assms extract_all_keys by blast
  have "csv_text lines = (writerow fields @ concat (map (\<lambda>l. writerow (map (dict_get l) fields)) lines), None)"
    by (simp add: csv_text_def writeheader_fields dict_writerows_extracted [OF keys])
  then have out: "csv_text lines =
     (''Authors,PubDate,Title,Journal,Volume,Label,WorkType'' @ [CR, LF] @
      concat (map (\<lambda>l. writerow [dict_get l ''Authors'', dict_get l ''PubDate'', dict_get l ''Title'',
                                  dict_get l ''Journal'', dict_get l ''Volume'', dict_get l ''Label'',
                                  dict_get l ''WorkType'']) lines), None)"
    unfolding header_text by (simp add: fields_def)
  have vals: "\<forall>l \<in> set lines. \<forall>k \<in> set fields. \<exists>v. map_of l k = Some v \<and> dict_get l k = v"
  proof (intro ballI)
    fix l k
    assume "l \<in> set lines" and k: "k \<in> set fields"
    with keys have "map fst l = [''Authors'', ''PubDate'', ''Journal'', ''Title'', ''Volume'', ''Label'', ''WorkType'']"
      by blast
    with k have "k \<in> fst ` set l"
      unfolding set_map [symmetric] by (auto simp: fields_def)
    then obtain v where "map_of l k = Some v"
      by (metis domD dom_map_of_conv_image_fst)
    then show "\<exists>v. map_of l k = Some v \<and> dict_get l k = v"
      by (simp add: dict_get_def)
  qed
  from out vals show ?thesis by simp
qed

theorem title_before_journal_order_witness:
  "csv_text [[(''Authors'', ''Hicks, T.; Doe, J.''), (''PubDate'', ''2020''), (''Journal'', ''Journal''),
              (''Title'', ''A, B''), (''Volume'', ''3:2:10-20''), (''Label'', []), (''WorkType'', [])]] =
     (''Authors,PubDate,Title,Journal,Volume,Label,WorkType'' @ [CR, LF] @
      [quotechar] @ ''Hicks, T.; Doe, J.'' @ [quotechar] @ '',2020,'' @
      [quotechar] @ ''A, B'' @ [quotechar] @ '',Journal,3:2:10-20,,'' @ [CR, LF], None)"
proof -
  have v: "volume_field sample_record = ''3:2:10-20''"
    by (simp add: volume_field_components sample_record_def style_def author_def find_path_def
        text_or_empty_def findall_Cons)
  have r0: "extract_record sample_record =
      Inr [(''Authors'', ''Hicks, T.; Doe, J.''), (''PubDate'', ''2020''), (''Journal'', ''Journal''),
           (''Title'', ''A, B''), (''Volume'', volume_field sample_record), (''Label'', []),
           (''WorkType'', [])]"
    by (simp add: extract_record_def authors_field_def sample_record_def style_def author_def
        find_path_def text_or_empty_def findall_Cons)
  have r: "extract_all [sample_record] =
      Inr [[(''Authors'', ''Hicks, T.; Doe, J.''), (''PubDate'', ''2020''), (''Journal'', ''Journal''),
            (''Title'', ''A, B''), (''Volume'', ''3:2:10-20''), (''Label'', []), (''WorkType'', [])]]"
    using r0 v by simp
  show ?thesis
    using title_before_journal_order [OF r]
    by (simp add: dict_get_def writerow_def join_append_def needs_quoting_def quotechar_def CR_def LF_def)
qed

lemma special_distinct:
  "CR \<noteq> LF" "quotechar \<noteq> CR" "quotechar \<noteq> LF" "quotechar \<noteq> CHR '',''"
  "CR \<noteq> CHR '',''" "LF \<noteq> CHR '',''"
  "LF \<noteq> CR" "CR \<noteq> quotechar" "LF \<noteq> quotechar" "CHR '','' \<noteq> quotechar"
  "CHR '','' \<noteq> CR" "CHR '','' \<noteq> LF"
  by (simp_all add: CR_def LF_def quotechar_def)

lemma needs_quoting_iff:
  "needs_quoting c \<longleftrightarrow> c = LF \<or> c = CR \<or> c = CHR '','' \<or> c = quotechar"
  by (auto simp: needs_quoting_def)

lemma parse_add_char_below:
  "length fld < field_limit \<Longrightarrow> parse_add_char fld c = Some (fld @ [c])"
  by (simp add: parse_add_char_def)

lemma parse_add_char_full:
  "field_limit \<le> length fld \<Longrightarrow> parse_add_char fld c = None"
  by (simp add: parse_add_char_def)

lemma parse_add_char_first: "parse_add_char [] c = Some [c]"
  by (simp add: parse_add_char_def field_limit_def)

lemma line_events_LF: "line_events (LF # rest) = Some LF # None # line_events rest"
  by (cases rest) simp_all

lemma line_events_Cons:
  "rest \<noteq> [] \<Longrightarrow>
   line_events (c # rest) =
     Some c # (if c = LF \<or> (c = CR \<and> hd rest \<noteq> LF) then [None] else []) @ line_events rest"
  by (cases rest) simp_all

lemma line_events_plain:
  "rest \<noteq> [] \<Longrightarrow> c \<noteq> LF \<Longrightarrow> c \<noteq> CR \<Longrightarrow> line_events (c # rest) = Some c # line_events rest"
  by (simp add: line_events_Cons)

lemma line_events_CRLF:
  "line_events (CR # LF # rest) = Some CR # Some LF # None # line_events rest"
  by (cases rest) (simp_all add: special_distinct)

text \<open>The characters of an unquoted field, within the limit and beyond it.\<close>

lemma read_unquoted:
  "\<not> list_ex needs_quoting f \<Longrightarrow> rest \<noteq> [] \<Longrightarrow> length acc + length f \<le> field_limit \<Longrightarrow>
   read_events (IN_FIELD, acc, flds) (line_events (f @ rest)) =
   read_events (IN_FIELD, acc @ f, flds) (line_events rest)"
proof (induction f arbitrary: acc)
  case Nil
  show ?case by simp
next
  case (Cons c f)
  from Cons.prems(1) have nq: "\<not> needs_quoting c" and f: "\<not> list_ex needs_quoting f"
    by simp_all
  from nq have c: "c \<noteq> LF" "c \<noteq> CR" "c \<noteq> CHR '',''" "c \<noteq> quotechar"
    by (simp_all add: needs_quoting_iff)
  have ne: "f @ rest \<noteq> []" using Cons.prems by simp
  have room: "length acc < field_limit" and len: "length (acc @ [c]) + length f \<le> field_limit"
    using Cons.prems(3) by simp_all
  have "read_events (IN_FIELD, acc, flds) (line_events ((c # f) @ rest)) =
        read_events (IN_FIELD, acc @ [c], flds) (line_events (f @ rest))"
    using c by (simp add: line_events_plain [OF ne] parse_add_char_below [OF room])
  also have "\<dots> = read_events (IN_FIELD, (acc @ [c]) @ f, flds) (line_events rest)"
    by (rule Cons.IH [OF f Cons.prems(2) len])
  finally show ?case by simp
qed

lemma read_unquoted_beyond_limit:
  "\<not> list_ex needs_quoting f \<Longrightarrow> rest \<noteq> [] \<Longrightarrow> length acc \<le> field_limit \<Longrightarrow>
   field_limit < length acc + length f \<Longrightarrow>
   read_events (IN_FIELD, acc, flds) (line_events (f @ rest)) = None"
proof (induction f arbitrary: acc)
  case Nil
  then show ?case by simp
next
  case (Cons c f)
  from Cons.prems(1) have nq: "\<not> needs_quoting c" and f: "\<not> list_ex needs_quoting f"
    by simp_all
  from nq have c: "c \<noteq> LF" "c \<noteq> CR" "c \<noteq> CHR '',''" "c \<noteq> quotechar"
    by (simp_all add: needs_quoting_iff)
  have ne: "f @ rest \<noteq> []" using Cons.prems by simp
  show ?case
  proof (cases "length acc < field_limit")
    case True
    have "read_events (IN_FIELD, acc, flds) (line_events ((c # f) @ rest)) =
          read_events (IN_FIELD, acc @ [c], flds) (line_events (f @ rest))"
      using c by (simp add: line_events_plain [OF ne] parse_add_char_below [OF True])
    also have "\<dots> = None"
      using True Cons.prems(4) by (intro Cons.IH [OF f Cons.prems(2)]) simp_all
    finally show ?thesis .
  next
    case False
    then have "parse_add_char acc c = None"
      by (simp add: parse_add_char_full)
    then show ?thesis
      using c by (simp add: line_events_plain [OF ne])
  qed
qed

text \<open>The characters of a quoted field.\<close>

lemma read_quoted:
  "rest \<noteq> [] \<Longrightarrow> length acc + length f \<le> field_limit \<Longrightarrow>
   read_events (IN_QUOTED_FIELD, acc, flds) (line_events (join_append_data f @ rest)) =
   read_events (IN_QUOTED_FIELD, acc @ f, flds) (line_events rest)"
proof (induction f arbitrary: acc)
  case Nil
  show ?case by simp
next
  case (Cons c f)
  have ne: "join_append_data f @ rest \<noteq> []" using Cons.prems by simp
  have room: "length acc < field_limit" and len: "length (acc @ [c]) + length f \<le> field_limit"
    using Cons.prems(2) by simp_all
  have step: "read_events (IN_QUOTED_FIELD, acc, flds) (line_events (join_append_data (c # f) @ rest)) =
        read_events (IN_QUOTED_FIELD, acc @ [c], flds) (line_events (join_append_data f @ rest))"
  proof (cases "c = quotechar")
    case True
    have q: "quotechar # join_append_data f @ rest \<noteq> []" by simp
    show ?thesis
      using True
      by (simp add: line_events_plain [OF q] line_events_plain [OF ne] special_distinct
          parse_add_char_below [OF room])
  next
    case False
    then show ?thesis
      by (simp add: line_events_Cons [OF ne] parse_add_char_below [OF room])
  qed
  also have "\<dots> = read_events (IN_QUOTED_FIELD, (acc @ [c]) @ f, flds) (line_events rest)"
    by (rule Cons.IH [OF Cons.prems(1) len])
  finally show ?case by simp
qed

lemma join_append_data_plain: "\<not> list_ex needs_quoting f \<Longrightarrow> join_append_data f = f"
proof (induction f)
  case Nil
  show ?case by simp
next
  case (Cons c f)
  from Cons.prems have nq: "\<not> needs_quoting c" and f: "\<not> list_ex needs_quoting f"
    by simp_all
  from nq have "c \<noteq> quotechar" by (simp add: needs_quoting_iff)
  with Cons.IH [OF f] show ?case by simp
qed

text \<open>A field followed by the delimiter.\<close>

lemma read_field_delimiter:
  assumes "st = START_RECORD \<or> st = START_FIELD" and "rest \<noteq> []" and "length f \<le> field_limit"
  shows "read_events (st, [], flds) (line_events (join_append f @ CHR '','' # rest)) =
         read_events (START_FIELD, [], flds @ [f]) (line_events rest)"
proof (cases "list_ex needs_quoting f")
  case True
  have ne1: "join_append_data f @ quotechar # CHR '','' # rest \<noteq> []" by simp
  have ne2: "CHR '','' # rest \<noteq> []" by simp
  have "read_events (st, [], flds) (line_events (join_append f @ CHR '','' # rest)) =
        read_events (IN_QUOTED_FIELD, [], flds) (line_events (join_append_data f @ quotechar # CHR '','' # rest))"
    using assms(1) True by (auto simp: join_append_def line_events_plain [OF ne1] special_distinct)
  also have "\<dots> = read_events (IN_QUOTED_FIELD, [] @ f, flds) (line_events (quotechar # CHR '','' # rest))"
    using assms(3) by (intro read_quoted) simp_all
  also have "\<dots> = read_events (START_FIELD, [], flds @ [f]) (line_events rest)"
    using assms(2)
    by (simp add: line_events_plain [OF ne2] line_events_plain [OF assms(2)] special_distinct)
  finally show ?thesis .
next
  case False
  note plain = False
  show ?thesis
  proof (cases f)
    case Nil
    then show ?thesis
      using assms by (auto simp: join_append_def line_events_plain special_distinct)
  next
    case (Cons c g)
    with plain have nq: "\<not> needs_quoting c" and g: "\<not> list_ex needs_quoting g"
      by simp_all
    from nq have c: "c \<noteq> LF" "c \<noteq> CR" "c \<noteq> CHR '',''" "c \<noteq> quotechar"
      by (simp_all add: needs_quoting_iff)
    have ne: "g @ CHR '','' # rest \<noteq> []" by simp
    have "read_events (st, [], flds) (line_events (join_append f @ CHR '','' # rest)) =
          read_events (IN_FIELD, [c], flds) (line_events (g @ CHR '','' # rest))"
      using assms(1) plain c Cons
      by (auto simp: join_append_def join_append_data_plain line_events_plain [OF ne]
          parse_add_char_first)
    also have "\<dots> = read_events (IN_FIELD, [c] @ g, flds) (line_events (CHR '','' # rest))"
      using assms(3) Cons by (intro read_unquoted [OF g]) simp_all
    also have "\<dots> = read_events (START_FIELD, [], flds @ [f]) (line_events rest)"
      using assms(2) Cons by (simp add: line_events_plain special_distinct)
    finally show ?thesis .
  qed
qed

text \<open>The last field of a record of at least two fields, followed by the line terminator.\<close>

lemma read_field_terminator:
  assumes "length f \<le> field_limit"
  shows "read_events (START_FIELD, [], flds) (line_events (join_append f @ CR # LF # rest)) =
   map_option ((#) (flds @ [f])) (read_events (START_RECORD, [], []) (line_events rest))"
proof (cases "list_ex needs_quoting f")
  case True
  have ne1: "join_append_data f @ quotechar # CR # LF # rest \<noteq> []" by simp
  have ne2: "CR # LF # rest \<noteq> []" by simp
  have "read_events (START_FIELD, [], flds) (line_events (join_append f @ CR # LF # rest)) =
        read_events (IN_QUOTED_FIELD, [], flds) (line_events (join_append_data f @ quotechar # CR # LF # rest))"
    using True by (simp add: join_append_def line_events_plain [OF ne1] special_distinct)
  also have "\<dots> = read_events (IN_QUOTED_FIELD, [] @ f, flds) (line_events (quotechar # CR # LF # rest))"
    using assms by (intro read_quoted) simp_all
  also have "\<dots> = map_option ((#) (flds @ [f])) (read_events (START_RECORD, [], []) (line_events rest))"
    by (simp add: line_events_plain [OF ne2] line_events_CRLF line_events_LF special_distinct)
  finally show ?thesis .
next
  case False
  note plain = False
  show ?thesis
  proof (cases f)
    case Nil
    then show ?thesis
      by (simp add: join_append_def line_events_CRLF line_events_LF special_distinct)
  next
    case (Cons c g)
    with plain have nq: "\<not> needs_quoting c" and g: "\<not> list_ex needs_quoting g"
      by simp_all
    from nq have c: "c \<noteq> LF" "c \<noteq> CR" "c \<noteq> CHR '',''" "c \<noteq> quotechar"
      by (simp_all add: needs_quoting_iff)
    have ne: "g @ CR # LF # rest \<noteq> []" by simp
    have "read_events (START_FIELD, [], flds) (line_events (join_append f @ CR # LF # rest)) =
          read_events (IN_FIELD, [c], flds) (line_events (g @ CR # LF # rest))"
      using plain c Cons
      by (simp add: join_append_def join_append_data_plain line_events_plain [OF ne]
          parse_add_char_first)
    also have "\<dots> = read_events (IN_FIELD, [c] @ g, flds) (line_events (CR # LF # rest))"
      using assms Cons by (intro read_unquoted [OF g]) simp_all
    also have "\<dots> = map_option ((#) (flds @ [f])) (read_events (START_RECORD, [], []) (line_events rest))"
      using Cons by (simp add: line_events_CRLF line_events_LF special_distinct)
    finally show ?thesis .
  qed
qed

lemma read_fields_terminator:
  "fs \<noteq> [] \<Longrightarrow> \<forall>f \<in> set fs. length f \<le> field_limit \<Longrightarrow>
   read_events (START_FIELD, [], flds) (line_events (join_fields fs @ CR # LF # rest)) =
   map_option ((#) (flds @ fs)) (read_events (START_RECORD, [], []) (line_events rest))"
proof (induction fs arbitrary: flds rule: join_fields.induct)
  case 1
  then show ?case by simp
next
  case (2 f)
  then show ?case by (simp add: read_field_terminator)
next
  case (3 f g fs)
  have ne: "join_fields (g # fs) @ CR # LF # rest \<noteq> []" by simp
  have f: "length f \<le> field_limit" and gs: "\<forall>f \<in> set (g # fs). length f \<le> field_limit"
    using "3.prems"(2) by simp_all
  have "read_events (START_FIELD, [], flds) (line_events (join_fields (f # g # fs) @ CR # LF # rest)) =
        read_events (START_FIELD, [], flds @ [f]) (line_events (join_fields (g # fs) @ CR # LF # rest))"
    using read_field_delimiter [of START_FIELD, OF _ ne f] by simp
  also have "\<dots> = map_option ((#) ((flds @ [f]) @ g # fs)) (read_events (START_RECORD, [], []) (line_events rest))"
    using gs by (intro "3.IH") simp_all
  finally show ?case by simp
qed

lemma read_writerow:
  assumes "2 \<le> length fs" and "\<forall>f \<in> set fs. length f \<le> field_limit"
  shows "read_events (START_RECORD, [], []) (line_events (writerow fs @ rest)) =
     map_option ((#) fs) (read_events (START_RECORD, [], []) (line_events rest))"
proof -
  from assms(1) obtain f g gs where fs: "fs = f # g # gs"
    by (cases fs; cases "tl fs") auto
  have ne: "join_fields (g # gs) @ CR # LF # rest \<noteq> []" by simp
  have f: "length f \<le> field_limit" and gs: "\<forall>f \<in> set (g # gs). length f \<le> field_limit"
    using assms(2) fs by simp_all
  have "read_events (START_RECORD, [], []) (line_events (writerow fs @ rest)) =
        read_events (START_RECORD, [], []) (line_events (join_append f @ CHR '','' # join_fields (g # gs) @ CR # LF # rest))"
    by (simp add: writerow_def fs)
  also have "\<dots> = read_events (START_FIELD, [], [] @ [f]) (line_events (join_fields (g # gs) @ CR # LF # rest))"
    by (rule read_field_delimiter [OF _ ne f]) simp
  also have "\<dots> = map_option ((#) (([] @ [f]) @ g # gs)) (read_events (START_RECORD, [], []) (line_events rest))"
    using gs by (intro read_fields_terminator) simp_all
  finally show ?thesis by (simp add: fs)
qed

lemma csv_reader_writerows:
  "\<forall>fs \<in> set rows. 2 \<le> length fs \<and> (\<forall>f \<in> set fs. length f \<le> field_limit) \<Longrightarrow>
   csv_reader (concat (map writerow rows)) = Some rows"
  unfolding csv_reader_def
  by (induction rows) (simp_all add: read_writerow)

lemma read_long_field:
  assumes "\<not> list_ex needs_quoting f" and "field_limit < length f" and "rest \<noteq> []"
  shows "read_events (START_FIELD, [], flds) (line_events (join_append f @ rest)) = None"
proof -
  from assms(2) obtain c g where f: "f = c # g"
    by (cases f) auto
  with assms(1) have nq: "\<not> needs_quoting c" and g: "\<not> list_ex needs_quoting g"
    by simp_all
  from nq have c: "c \<noteq> LF" "c \<noteq> CR" "c \<noteq> CHR '',''" "c \<noteq> quotechar"
    by (simp_all add: needs_quoting_iff)
  have ne: "g @ rest \<noteq> []" using assms(3) by simp
  have "read_events (START_FIELD, [], flds) (line_events (join_append f @ rest)) =
        read_events (IN_FIELD, [c], flds) (line_events (g @ rest))"
    using assms(1) c f
    by (simp add: join_append_def join_append_data_plain line_events_plain [OF ne] parse_add_char_first)
  also have "\<dots> = None"
    using assms(2) f by (intro read_unquoted_beyond_limit [OF g assms(3)]) (simp_all add: field_limit_def)
  finally show ?thesis .
qed

lemma text_mode_write_unchanged:
  assumes "linesep p = [LF]" and "list_all (encodable p) s"
  shows "text_mode_write p s = Inr s"
proof -
  have "concat (map (\<lambda>c. if c = LF then [LF] else [c]) s) = s"
    by (induction s) simp_all
  with assms(2) show ?thesis
    unfolding text_mode_write_def assms(1) by simp
qed

lemma list_all_always: "list_all always s"
  by (simp add: list_all_iff always_def)

lemma dict_get_length:
  "\<forall>v \<in> snd ` set l. length v \<le> n \<Longrightarrow> length (dict_get l k) \<le> n"
  by (auto simp: dict_get_def split: option.splits dest!: map_of_SomeD intro: rev_image_eqI)

lemma csv_text_extracted:
  assumes "\<forall>l \<in> set lines.
      map fst l = [''Authors'', ''PubDate'', ''Journal'', ''Title'', ''Volume'', ''Label'', ''WorkType'']"
  shows "csv_text lines = (concat (map writerow (fields # map (\<lambda>l. map (dict_get l) fields) lines)), None)"
  by (simp add: csv_text_def writeheader_fields dict_writerows_extracted [OF assms] comp_def)

lemma fields_within_limit: "\<forall>f \<in> set fields. length f \<le> field_limit"
  by (simp add: fields_def field_limit_def)

lemma extract_sample_record: "extract_all [sample_record] = Inr [sample_line]"
proof -
  have v: "volume_field sample_record = ''3:2:10-20''"
    by (simp add: volume_field_components sample_record_def style_def author_def find_path_def
        text_or_empty_def findall_Cons)
  have "extract_record sample_record =
      Inr [(''Authors'', ''Hicks, T.; Doe, J.''), (''PubDate'', ''2020''), (''Journal'', ''Journal''),
           (''Title'', ''A, B''), (''Volume'', volume_field sample_record), (''Label'', []),
           (''WorkType'', [])]"
    by (simp add: extract_record_def authors_field_def sample_record_def style_def author_def
        find_path_def text_or_empty_def findall_Cons)
  with v show ?thesis by (simp add: sample_line_def)
qed

lemma extract_titled_record: "extract_all [titled_record t] = Inr [titled_line t]"
proof -
  have v: "volume_field (titled_record t) = []"
    by (simp add: volume_field_components titled_record_def style_def find_path_def
        text_or_empty_def findall_Cons)
  have "extract_record (titled_record t) =
      Inr [(''Authors'', []), (''PubDate'', []), (''Journal'', []), (''Title'', t),
           (''Volume'', volume_field (titled_record t)), (''Label'', []), (''WorkType'', [])]"
    by (simp add: extract_record_def authors_field_def titled_record_def style_def
        find_path_def text_or_empty_def findall_Cons)
  with v show ?thesis by (simp add: titled_line_def)
qed

lemma csv_text_titled_line:
  "csv_text [titled_line t] = (writerow fields @ writerow [[], [], t, [], [], [], []], None)"
  using csv_text_extracted [of "[titled_line t]"]
  by (simp add: titled_line_def dict_get_def fields_def)

lemma long_title_facts:
  "\<not> list_ex needs_quoting long_title" "field_limit < length long_title"
  by (simp_all add: long_title_def list_ex_iff needs_quoting_def quotechar_def CR_def LF_def
      field_limit_def)

lemma long_title_not_read:
  "write_then_read posix_utf8 [titled_line long_title] = Inr None"
proof -
  let ?t = "writerow fields @ writerow [[], [], long_title, [], [], [], []]"
  have w: "text_mode_write posix_utf8 ?t = Inr ?t"
    by (rule text_mode_write_unchanged) (simp_all add: posix_utf8_def list_all_always)
  have ne: "CHR '','' # join_fields [[], [], [], []] @ [CR, LF] \<noteq> []" by simp
  have "read_events (START_RECORD, [], []) (line_events (writerow [[], [], long_title, [], [], [], []])) =
        read_events (START_RECORD, [], []) (line_events (join_append [] @ CHR '','' #
          join_append [] @ CHR '','' # join_append long_title @ CHR '','' # join_fields [[], [], [], []] @ [CR, LF]))"
    by (simp add: writerow_def)
  also have "\<dots> = read_events (START_FIELD, [], [] @ [[]]) (line_events (
          join_append [] @ CHR '','' # join_append long_title @ CHR '','' # join_fields [[], [], [], []] @ [CR, LF]))"
    by (rule read_field_delimiter) simp_all
  also have "\<dots> = read_events (START_FIELD, [], ([] @ [[]]) @ [[]]) (line_events (
          join_append long_title @ CHR '','' # join_fields [[], [], [], []] @ [CR, LF]))"
    by (rule read_field_delimiter) simp_all
  also have "\<dots> = None"
    by (rule read_long_field [OF long_title_facts ne])
  finally have row: "read_events (START_RECORD, [], []) (line_events (writerow [[], [], long_title, [], [], [], []])) = None" .
  have "csv_reader ?t = map_option ((#) fields)
      (read_events (START_RECORD, [], []) (line_events (writerow [[], [], long_title, [], [], [], []])))"
    unfolding csv_reader_def
    by (rule read_writerow) (simp_all add: fields_within_limit, simp add: fields_def)
  with row have "csv_reader ?t = None" by simp
  with w show ?thesis
    by (simp add: write_then_read_def csv_text_titled_line)
qed

lemma windows_line_break_changed:
  "write_then_read windows_utf8 [titled_line [CHR ''a'', LF, CHR ''b'']] =
     Inr (Some [fields, [], [[], [], [CHR ''a'', CR, LF, CHR ''b''], [], [], [], []], []])"
proof -
  have w: "text_mode_write windows_utf8 (writerow fields @ writerow [[], [], [CHR ''a'', LF, CHR ''b''], [], [], [], []]) =
      Inr (''Authors,PubDate,Title,Journal,Volume,Label,WorkType'' @ [CR, CR, LF] @
           '',,'' @ [quotechar, CHR ''a'', CR, LF, CHR ''b'', quotechar] @ '',,,,'' @ [CR, CR, LF])"
    by code_simp
  have r: "csv_reader (''Authors,PubDate,Title,Journal,Volume,Label,WorkType'' @ [CR, CR, LF] @
           '',,'' @ [quotechar, CHR ''a'', CR, LF, CHR ''b'', quotechar] @ '',,,,'' @ [CR, CR, LF]) =
      Some [fields, [], [[], [], [CHR ''a'', CR, LF, CHR ''b''], [], [], [], []], []]"
    by (simp add: csv_reader_def fields_def CR_def LF_def quotechar_def parse_add_char_def field_limit_def)
  from w r show ?thesis
    by (simp add: write_then_read_def csv_text_titled_line)
qed

lemma ascii_platform_raises:
  "write_then_read posix_ascii [titled_line [CHR 0xE9]] = Inl UnicodeEncodeError"
  by code_simp

lemma sample_line_read:
  "write_then_read posix_utf8 [sample_line] =
     Inr (Some [fields, [''Hicks, T.; Doe, J.'', ''2020'', ''A, B'', ''Journal'', ''3:2:10-20'', [], []]])"
proof -
  let ?rows = "[fields, [''Hicks, T.; Doe, J.'', ''2020'', ''A, B'', ''Journal'', ''3:2:10-20'', [], []]]"
  have t: "csv_text [sample_line] = (concat (map writerow ?rows), None)"
    using csv_text_extracted [of "[sample_line]"]
    by (simp add: sample_line_def dict_get_def fields_def)
  have w: "text_mode_write posix_utf8 (concat (map writerow ?rows)) = Inr (concat (map writerow ?rows))"
    by (rule text_mode_write_unchanged) (simp_all add: posix_utf8_def list_all_always)
  have "\<forall>fs \<in> set ?rows. 2 \<le> length fs \<and> (\<forall>f \<in> set fs. length f \<le> field_limit)"
    by (simp add: fields_def field_limit_def)
  from csv_reader_writerows [OF this] t w show ?thesis
    by (simp add: write_then_read_def)
qed

text \<open>
  C8. The claim asks that reading the output file back gives exactly the rows that were
  extracted, in the same column order, for every extracted row sequence. Four inputs
  that the program can receive show otherwise. The line of the sample record is read
  back in the order of the header, Title before Journal, which is not the order of the
  line. A title of 131073 characters is written, and the reader raises its error at the
  field size limit. Where the line separator is \<^verbatim>\<open>\r\n\<close>, a title with a line break is
  read back with the line break changed, between empty rows. Where the encoding is
  ASCII, a title with another character makes the write raise \<^verbatim>\<open>UnicodeEncodeError\<close>.
\<close>

theorem csv_round_trip_counterexample:
  "extract_all [sample_record] = Inr [sample_line]
   \<and> write_then_read posix_utf8 [sample_line] =
       Inr (Some [[''Authors'', ''PubDate'', ''Title'', ''Journal'', ''Volume'', ''Label'', ''WorkType''],
                  [''Hicks, T.; Doe, J.'', ''2020'', ''A, B'', ''Journal'', ''3:2:10-20'', [], []]])
   \<and> map fst sample_line = [''Authors'', ''PubDate'', ''Journal'', ''Title'', ''Volume'', ''Label'', ''WorkType'']
   \<and> map snd sample_line = [''Hicks, T.; Doe, J.'', ''2020'', ''Journal'', ''A, B'', ''3:2:10-20'', [], []]
   \<and> write_then_read posix_utf8 [sample_line] \<noteq> Inr (Some [map fst sample_line, map snd sample_line])
   \<and> extract_all [titled_record long_title] = Inr [titled_line long_title]
   \<and> write_then_read posix_utf8 [titled_line long_title] = Inr None
   \<and> extract_all [titled_record [CHR ''a'', LF, CHR ''b'']] = Inr [titled_line [CHR ''a'', LF, CHR ''b'']]
   \<and> write_then_read windows_utf8 [titled_line [CHR ''a'', LF, CHR ''b'']] =
       Inr (Some [fields, [], [[], [], [CHR ''a'', CR, LF, CHR ''b''], [], [], [], []], []])
   \<and> extract_all [titled_record [CHR 0xE9]] = Inr [titled_line [CHR 0xE9]]
   \<and> write_then_read posix_ascii [titled_line [CHR 0xE9]] = Inl UnicodeEncodeError"
proof -
  have order: "write_then_read posix_utf8 [sample_line] =
       Inr (Some [[''Authors'', ''PubDate'', ''Title'', ''Journal'', ''Volume'', ''Label'', ''WorkType''],
                  [''Hicks, T.; Doe, J.'', ''2020'', ''A, B'', ''Journal'', ''3:2:10-20'', [], []]])"
    using sample_line_read by (simp add: fields_def)
  have keys: "map fst sample_line = [''Authors'', ''PubDate'', ''Journal'', ''Title'', ''Volume'', ''Label'', ''WorkType'']"
    and vals: "map snd sample_line = [''Hicks, T.; Doe, J.'', ''2020'', ''Journal'', ''A, B'', ''3:2:10-20'', [], []]"
    by (simp_all add: sample_line_def)
  have differs: "write_then_read posix_utf8 [sample_line] \<noteq> Inr (Some [map fst sample_line, map snd sample_line])"
    unfolding order keys vals by simp
  from order keys vals differs show ?thesis
    using extract_sample_record extract_titled_record long_title_not_read windows_line_break_changed
      ascii_platform_raises
    by simp
qed

text \<open>
  C8 as amended. On a platform whose line separator is \<^verbatim>\<open>\n\<close> and whose encoding
  represents every character of the text written, and when no extracted value is longer
  than the field size limit of the reader (131072 characters), the lines extracted from
  any list of records are written without an exception and read back as the header row
  followed by one row per line, each with the values of the line in the order of the
  header (Authors, PubDate, Title, Journal, Volume, Label, WorkType); paired with the
  header, a row read back is the same mapping as the line it was written from. The text
  is the one that \<^verbatim>\<open>save_to_CSV\<close> stores in the output file.
\<close>

theorem csv_round_trip:
  assumes "extract_all recs = Inr lines"
    and "linesep p = [LF]"
    and "list_all (encodable p) (fst (csv_text lines))"
    and "\<forall>l \<in> set lines. \<forall>v \<in> snd ` set l. length v \<le> field_limit"
  shows "write_then_read p lines = Inr (Some (fields # map (\<lambda>l. map (dict_get l) fields) lines))
    \<and> fields = [''Authors'', ''PubDate'', ''Title'', ''Journal'', ''Volume'', ''Label'', ''WorkType'']
    \<and> (\<forall>l \<in> set lines. map_of (zip fields (map (dict_get l) fields)) = map_of l)
    \<and> (write_ok w output_file \<longrightarrow>
         save_to_CSV w lines output_file =
           (w\<lparr>file_content := (file_content w)(output_file \<mapsto> fst (csv_text lines))\<rparr>, Returned))"
proof -
  have keys: "\<forall>l \<in> set lines.
      map fst l = [''Authors'', ''PubDate'', ''Journal'', ''Title'', ''Volume'', ''Label'', ''WorkType'']"
    using assms(1) extract_all_keys by blast
  note out = csv_text_extracted [OF keys]
  have stored: "text_mode_write p (fst (csv_text lines)) = Inr (fst (csv_text lines))"
    by (rule text_mode_write_unchanged [OF assms(2) assms(3)])
  have "\<forall>fs \<in> set (fields # map (\<lambda>l. map (dict_get l) fields) lines).
      2 \<le> length fs \<and> (\<forall>f \<in> set fs. length f \<le> field_limit)"
    using assms(4) fields_within_limit dict_get_length [of _ field_limit]
    by (auto simp: fields_def)
  from csv_reader_writerows [OF this]
  have rd: "csv_reader (fst (csv_text lines)) = Some (fields # map (\<lambda>l. map (dict_get l) fields) lines)"
    by (simp only: out fst_conv)
  have round: "write_then_read p lines = Inr (Some (fields # map (\<lambda>l. map (dict_get l) fields) lines))"
    using stored rd by (simp add: write_then_read_def out)
  have same: "\<forall>l \<in> set lines. map_of (zip fields (map (dict_get l) fields)) = map_of l"
  proof
    fix l
    assume "l \<in> set lines"
    with keys obtain a d j t v b k where l: "l =
        [(''Authors'', a), (''PubDate'', d), (''Journal'', j), (''Title'', t),
         (''Volume'', v), (''Label'', b), (''WorkType'', k)]"
      by (auto simp: map_eq_Cons_conv)
    show "map_of (zip fields (map (dict_get l) fields)) = map_of l"
      unfolding l by (rule ext) (simp add: fields_def dict_get_def)
  qed
  have wr: "write_ok w output_file \<longrightarrow>
         save_to_CSV w lines output_file =
           (w\<lparr>file_content := (file_content w)(output_file \<mapsto> fst (csv_text lines))\<rparr>, Returned)"
    by (simp add: save_to_CSV_def out)
  from round same wr show ?thesis by (simp add: fields_def)
qed

theorem csv_round_trip_witness:
  "write_then_read posix_utf8 [sample_line] =
     Inr (Some [[''Authors'', ''PubDate'', ''Title'', ''Journal'', ''Volume'', ''Label'', ''WorkType''],
                [''Hicks, T.; Doe, J.'', ''2020'', ''A, B'', ''Journal'', ''3:2:10-20'', [], []]])
   \<and> extract_all [sample_record] = Inr [sample_line]
   \<and> linesep posix_utf8 = [LF]
   \<and> list_all (encodable posix_utf8) (fst (csv_text [sample_line]))"
proof -
  have r: "extract_all [sample_record] = Inr [sample_line]"
    by (rule extract_sample_record)
  have s: "linesep posix_utf8 = [LF]"
    by (simp add: posix_utf8_def)
  have e: "list_all (encodable posix_utf8) (fst (csv_text [sample_line]))"
    by (simp add: posix_utf8_def list_all_always)
  have n: "\<forall>l \<in> set [sample_line]. \<forall>v \<in> snd ` set l. length v \<le> field_limit"
    by (simp add: sample_line_def field_limit_def)
  show ?thesis
    using csv_round_trip [OF r s e n] r s e
    by (simp add: dict_get_def fields_def sample_line_def)
qed

end
